theory Spec2Isabelle
  imports Main "HOL-Library.Sublist" "HOL-Library.Word"
begin

section \<open>Text and bytes\<close>

text \<open>
  The watermark remover of \<^verbatim>\<open>scripts/remove_watermark.py\<close> works on Python
  \<^verbatim>\<open>str\<close> values obtained by decoding the bytes of a PDF stream. A Python string is a
  sequence of Unicode code points, modelled as a list of naturals; a \<^verbatim>\<open>bytes\<close> value
  is a list of 8-bit words. ASCII literals are written with \<open>str\<close> and \<open>bstr\<close>.
\<close>

type_synonym codepoint = nat
type_synonym ustr = "nat list"
type_synonym byte = "8 word"

abbreviation str :: "string \<Rightarrow> ustr" where
  "str s \<equiv> map of_char s"

abbreviation bstr :: "string \<Rightarrow> byte list" where
  "bstr s \<equiv> map of_char s"

subsection \<open>Python string primitives\<close>

text \<open>
  Three operations of the Python runtime consult the Unicode character database, which
  is no part of the repository: \<^verbatim>\<open>str.lower()\<close> (a function of the whole string: it
  can change the length and looks at the context of a letter), and the classes \<^verbatim>\<open>\s\<close>
  and \<^verbatim>\<open>\w\<close> of \<^verbatim>\<open>re\<close> for \<^verbatim>\<open>str\<close> patterns. They are parameters of the model.
\<close>

record unicode =
  str_lower :: "ustr \<Rightarrow> ustr"
  re_space :: "codepoint \<Rightarrow> bool"
  re_word :: "codepoint \<Rightarrow> bool"

text \<open>
  The tables of Python on the code points below U+0100, for the evaluation of examples
  whose code points are all in that range. There \<^verbatim>\<open>str.lower()\<close> works character by
  character and maps \<^verbatim>\<open>A-Z\<close> and the Latin-1 capitals (U+00C0 to U+00DE without the
  multiplication sign) to the code point 32 above; \<^verbatim>\<open>\s\<close> is the white space of
  \<^verbatim>\<open>str.isspace\<close>; \<^verbatim>\<open>\w\<close> is the alphanumeric characters and the underscore.
\<close>

definition lower_cp :: "codepoint \<Rightarrow> codepoint" where
  "lower_cp c =
     (if (65 \<le> c \<and> c \<le> 90) \<or> (192 \<le> c \<and> c \<le> 222 \<and> c \<noteq> 215) then c + 32 else c)"

definition latin1_space :: "codepoint \<Rightarrow> bool" where
  "latin1_space c = ((9 \<le> c \<and> c \<le> 13) \<or> (28 \<le> c \<and> c \<le> 32) \<or> c = 133 \<or> c = 160)"

definition latin1_word :: "codepoint \<Rightarrow> bool" where
  "latin1_word c =
     ((48 \<le> c \<and> c \<le> 57) \<or> (65 \<le> c \<and> c \<le> 90) \<or> c = 95 \<or> (97 \<le> c \<and> c \<le> 122)
      \<or> c \<in> {170, 178, 179, 181, 185, 186, 188, 189, 190}
      \<or> (192 \<le> c \<and> c \<le> 214) \<or> (216 \<le> c \<and> c \<le> 246) \<or> (248 \<le> c \<and> c \<le> 255))"

definition latin1_tables :: unicode where
  "latin1_tables = \<lparr>str_lower = map lower_cp, re_space = latin1_space, re_word = latin1_word\<rparr>"

text \<open>The substring test \<^verbatim>\<open>needle in haystack\<close>.\<close>

fun contains :: "ustr \<Rightarrow> ustr \<Rightarrow> bool" where
  "contains needle [] = (needle = [])"
| "contains needle (c # cs) = (prefix needle (c # cs) \<or> contains needle cs)"

text \<open>\<^verbatim>\<open>any(wm_lower in t for wm_lower in watermark_lowers)\<close>.\<close>

definition any_in :: "ustr list \<Rightarrow> ustr \<Rightarrow> bool" where
  "any_in watermark_lowers t = list_ex (\<lambda>wm_lower. contains wm_lower t) watermark_lowers"

text \<open>\<^verbatim>\<open>' '.join(parts)\<close>.\<close>

fun join_space :: "ustr list \<Rightarrow> ustr" where
  "join_space [] = []"
| "join_space [p] = p"
| "join_space (p # q # ps) = p @ [32] @ join_space (q # ps)"

text \<open>
  \<^verbatim>\<open>s.replace(old, new)\<close>: the occurrences of \<open>old\<close> are replaced from the left,
  without overlap.
\<close>

function str_replace :: "ustr \<Rightarrow> ustr \<Rightarrow> ustr \<Rightarrow> ustr" where
  "str_replace old new [] = (if old = [] then new else [])"
| "str_replace old new (c # cs) =
     (if prefix old (c # cs) then new @ (if old = [] then [c] else []) @ str_replace old new (drop (length old - 1) cs)
      else c # str_replace old new cs)"
  by pat_completeness auto
termination
  by (relation "measure (\<lambda>(old, new, s). length s)") auto

subsection \<open>Codecs\<close>

text \<open>
  \<^verbatim>\<open>bytes.decode('utf-8', errors='ignore')\<close>: well-formed UTF-8 sequences give their
  code point; at an ill-formed sequence the decoder drops the bytes of the maximal
  ill-formed prefix (one byte for a bad start byte or a bad second byte, the bytes read so
  far for a later bad continuation byte, everything left for a sequence cut off by the end
  of the input) and resumes behind them.
\<close>

definition is_cont :: "byte \<Rightarrow> bool" where
  "is_cont b = (0x80 \<le> b \<and> b \<le> 0xBF)"

definition second_ok :: "byte \<Rightarrow> byte \<Rightarrow> bool" where
  "second_ok b b1 =
     (is_cont b1 \<and>
      (if b = 0xE0 then 0xA0 \<le> b1
       else if b = 0xED then b1 < 0xA0
       else if b = 0xF0 then 0x90 \<le> b1
       else if b = 0xF4 then b1 < 0x90
       else True))"

definition low6 :: "byte \<Rightarrow> nat" where
  "low6 b = unat b mod 64"

fun utf8_decode_ignore :: "byte list \<Rightarrow> ustr" where
  "utf8_decode_ignore [] = []"
| "utf8_decode_ignore (b # bs) =
     (if b < 0x80 then unat b # utf8_decode_ignore bs
      else if b < 0xC2 \<or> 0xF4 < b then utf8_decode_ignore bs
      else (case bs of
              [] \<Rightarrow> []
            | b1 # r1 \<Rightarrow>
                if \<not> second_ok b b1 then utf8_decode_ignore bs
                else if b < 0xE0 then (unat b mod 32 * 64 + low6 b1) # utf8_decode_ignore r1
                else (case r1 of
                        [] \<Rightarrow> []
                      | b2 # r2 \<Rightarrow>
                          if \<not> is_cont b2 then utf8_decode_ignore r1
                          else if b < 0xF0 then
                            (unat b mod 16 * 4096 + low6 b1 * 64 + low6 b2)
                              # utf8_decode_ignore r2
                          else (case r2 of
                                  [] \<Rightarrow> []
                                | b3 # r3 \<Rightarrow>
                                    if \<not> is_cont b3 then utf8_decode_ignore r2
                                    else (unat b mod 8 * 262144 + low6 b1 * 4096
                                            + low6 b2 * 64 + low6 b3)
                                           # utf8_decode_ignore r3))))"

text \<open>
  \<^verbatim>\<open>str.encode('latin-1', errors='ignore')\<close>: a code point below 256 becomes the byte
  of that value, every other code point is dropped.
\<close>

definition latin1_encode_ignore :: "ustr \<Rightarrow> byte list" where
  "latin1_encode_ignore s = map of_nat (filter (\<lambda>c. c < 256) s)"

text \<open>\<^verbatim>\<open>bytes.decode('latin-1', errors='ignore')\<close>: every byte is its own code point.\<close>

definition latin1_decode :: "byte list \<Rightarrow> ustr" where
  "latin1_decode bs = map unat bs"

section \<open>Text extraction\<close>

text \<open>
  \<^verbatim>\<open>extract_all_text_from_stream\<close> is defined twice in the source, once inside
  \<^verbatim>\<open>process_form_xobject\<close> and once inside \<^verbatim>\<open>remove_watermark_pymupdf\<close>, with the
  same body. Its first loop collects the literal strings \<^verbatim>\<open>(...)\<close>.
\<close>

abbreviation lparen :: codepoint where "lparen \<equiv> 40"
abbreviation rparen :: codepoint where "rparen \<equiv> 41"
abbreviation backslash :: codepoint where "backslash \<equiv> 92"

text \<open>
  The inner loop, entered behind an opening parenthesis with \<open>content = []\<close>. It returns
  the content and the text behind the closing parenthesis, or \<open>None\<close> when the end of
  the stream is reached first (the \<^verbatim>\<open>else\<close> branch of the \<^verbatim>\<open>while\<close>).
\<close>

fun scan_literal :: "ustr \<Rightarrow> ustr \<Rightarrow> (ustr \<times> ustr) option" where
  "scan_literal [] content = None"
| "scan_literal (c # cs) content =
     (if c = backslash \<and> cs \<noteq> [] then
        (case cs of
           [] \<Rightarrow> None
         | esc_char # r \<Rightarrow>
             scan_literal r
               (if esc_char \<in> set (str ''()nrtbf'') then content @ [esc_char] else content))
      else if c = rparen then Some (content, cs)
      else scan_literal cs (content @ [c]))"

lemma scan_literal_shorter:
  "scan_literal s content = Some (t, r) \<Longrightarrow> length r < length s"
  by (induction s content rule: scan_literal.induct)
     (auto split: if_splits list.splits simp del: set_map)

function literal_strings :: "ustr \<Rightarrow> ustr list" where
  "literal_strings [] = []"
| "literal_strings (c # cs) =
     (if c = lparen then
        (case scan_literal cs [] of
           Some (content, r) \<Rightarrow> content # literal_strings r
         | None \<Rightarrow> literal_strings cs)
      else literal_strings cs)"
  by pat_completeness auto
termination
  by (relation "measure length") (auto dest: scan_literal_shorter)

subsection \<open>Regular expressions\<close>

text \<open>The class \<^verbatim>\<open>[0-9A-Fa-f]\<close>.\<close>

definition is_hexdigit :: "codepoint \<Rightarrow> bool" where
  "is_hexdigit c = ((48 \<le> c \<and> c \<le> 57) \<or> (65 \<le> c \<and> c \<le> 70) \<or> (97 \<le> c \<and> c \<le> 102))"

text \<open>
  \<^verbatim>\<open>\b\<close> between the character \<open>prev\<close> and the text \<open>rest\<close> that follows it: the two
  sides differ in being a word character (\<^verbatim>\<open>\w\<close>), the end of the text counting as
  none.
\<close>

definition word_boundary :: "unicode \<Rightarrow> codepoint \<Rightarrow> ustr \<Rightarrow> bool" where
  "word_boundary U prev rest =
     (re_word U prev \<noteq> (case rest of [] \<Rightarrow> False | n # _ \<Rightarrow> re_word U n))"

text \<open>
  A pattern is modelled by its matcher at the start of a text: the first group and the
  length of the whole match, or \<open>None\<close>. Every pattern of the source starts with a
  literal character and has a single way to match from a given start.
\<close>

type_synonym matcher = "ustr \<Rightarrow> (ustr \<times> nat) option"

text \<open>\<^verbatim>\<open>BT(.*?)ET\<close> with \<^verbatim>\<open>re.DOTALL\<close>: the group ends before the first \<^verbatim>\<open>ET\<close>.\<close>

fun find_ET :: "ustr \<Rightarrow> ustr option" where
  "find_ET [] = None"
| "find_ET (c # cs) =
     (if prefix (str ''ET'') (c # cs) then Some [] else map_option ((#) c) (find_ET cs))"

definition match_text_object :: matcher where
  "match_text_object s =
     (if prefix (str ''BT'') s then
        (case find_ET (drop 2 s) of None \<Rightarrow> None | Some g \<Rightarrow> Some (g, length g + 4))
      else None)"

text \<open>
  \<^verbatim>\<open>\(([^)]*)\)\s+Tj\b\<close> and its siblings: an opening delimiter, the group up to the
  first closing delimiter, white space, the operator, and a word boundary behind it.
\<close>

definition match_operand :: "unicode \<Rightarrow> codepoint \<Rightarrow> codepoint \<Rightarrow> ustr \<Rightarrow> matcher" where
  "match_operand U opn cls op s =
     (case s of
        [] \<Rightarrow> None
      | c # r \<Rightarrow>
          if c \<noteq> opn then None
          else
            (let g = takeWhile (\<lambda>x. x \<noteq> cls) r in
             case dropWhile (\<lambda>x. x \<noteq> cls) r of
               [] \<Rightarrow> None
             | _ # r2 \<Rightarrow>
                 (let ws = takeWhile (re_space U) r2; r3 = dropWhile (re_space U) r2 in
                  if ws = [] \<or> \<not> prefix op r3 then None
                  else if \<not> word_boundary U (last op) (drop (length op) r3) then None
                  else Some (g, 1 + length g + 1 + length ws + length op))))"

text \<open>\<^verbatim>\<open><([0-9A-Fa-f]+)>\<close>.\<close>

definition match_hex :: matcher where
  "match_hex s =
     (case s of
        [] \<Rightarrow> None
      | c # r \<Rightarrow>
          if c \<noteq> 60 then None
          else
            (let ds = takeWhile is_hexdigit r in
             if ds \<noteq> [] \<and> prefix [62] (dropWhile is_hexdigit r)
             then Some (ds, length ds + 2) else None))"

text \<open>
  \<^verbatim>\<open>re.findall(pattern, s)\<close> and \<^verbatim>\<open>re.sub(pattern, repl, s)\<close>: the text is scanned
  from the left; where the pattern matches, the search resumes behind the match. All
  patterns of the source match at least two characters.
\<close>

function re_findall :: "matcher \<Rightarrow> ustr \<Rightarrow> ustr list" where
  "re_findall m [] = []"
| "re_findall m (c # cs) =
     (case m (c # cs) of
        None \<Rightarrow> re_findall m cs
      | Some (g, n) \<Rightarrow> g # re_findall m (drop (n - 1) cs))"
  by pat_completeness auto
termination
  by (relation "measure (\<lambda>(m, s). length s)") auto

function re_sub :: "matcher \<Rightarrow> (ustr \<Rightarrow> ustr \<Rightarrow> ustr) \<Rightarrow> ustr \<Rightarrow> ustr" where
  "re_sub m repl [] = []"
| "re_sub m repl (c # cs) =
     (case m (c # cs) of
        None \<Rightarrow> c # re_sub m repl cs
      | Some (g, n) \<Rightarrow> repl (take n (c # cs)) g @ re_sub m repl (drop (n - 1) cs))"
  by pat_completeness auto
termination
  by (relation "measure (\<lambda>(m, repl, s). length s)") auto

text \<open>
  The replacement function of every \<^verbatim>\<open>re.sub\<close> call:
  \<^verbatim>\<open>lambda m: '' if should_remove(m) else m.group(0)\<close>.
\<close>

definition drop_if :: "(ustr \<Rightarrow> bool) \<Rightarrow> ustr \<Rightarrow> ustr \<Rightarrow> ustr" where
  "drop_if should_remove whole g = (if should_remove g then [] else whole)"

subsection \<open>Hex strings and the extracted text\<close>

definition hexval :: "codepoint \<Rightarrow> nat" where
  "hexval c = (if c \<le> 57 then c - 48 else if c \<le> 70 then c - 55 else c - 87)"

text \<open>\<^verbatim>\<open>bytes.fromhex\<close> on an even number of hex digits.\<close>

fun fromhex :: "ustr \<Rightarrow> byte list" where
  "fromhex (h # l # r) = of_nat (hexval h * 16 + hexval l) # fromhex r"
| "fromhex _ = []"

text \<open>
  The second loop of \<^verbatim>\<open>extract_all_text_from_stream\<close>: a hex string with an even
  number of digits is decoded (the \<^verbatim>\<open>latin-1\<close> fallback is never reached, since decoding
  with \<^verbatim>\<open>errors='ignore'\<close> does not raise), one with an odd number is passed over.
\<close>

definition hex_texts :: "ustr \<Rightarrow> ustr list" where
  "hex_texts s =
     map (\<lambda>hex_str. utf8_decode_ignore (fromhex hex_str))
       (filter (\<lambda>hex_str. length hex_str mod 2 = 0) (re_findall match_hex s))"

definition extract_all_text_from_stream :: "unicode \<Rightarrow> ustr \<Rightarrow> ustr" where
  "extract_all_text_from_stream U s = str_lower U (join_space (literal_strings s @ hex_texts s))"

section \<open>Rewriting a stream\<close>

definition should_remove_text_object :: "unicode \<Rightarrow> ustr list \<Rightarrow> ustr \<Rightarrow> bool" where
  "should_remove_text_object U watermark_lowers block =
     any_in watermark_lowers (extract_all_text_from_stream U block)"

definition should_remove_inline :: "unicode \<Rightarrow> ustr list \<Rightarrow> ustr \<Rightarrow> bool" where
  "should_remove_inline U watermark_lowers text_str =
     any_in watermark_lowers
       (str_lower U
         (str_replace [backslash, backslash] [backslash]
           (str_replace [backslash, backslash, rparen] [rparen]
             (str_replace [backslash, backslash, lparen] [lparen] text_str))))"

definition should_remove_tj_array :: "unicode \<Rightarrow> ustr list \<Rightarrow> ustr \<Rightarrow> bool" where
  "should_remove_tj_array U watermark_lowers array_content =
     any_in watermark_lowers (extract_all_text_from_stream U array_content)"

text \<open>
  The five \<^verbatim>\<open>re.sub\<close> passes that \<^verbatim>\<open>process_form_xobject\<close> and
  \<^verbatim>\<open>remove_watermark_pymupdf\<close> both apply, in the source's order: text objects,
  \<^verbatim>\<open>(...) Tj\<close>, \<^verbatim>\<open>[...] TJ\<close>, \<^verbatim>\<open>(...) '\<close> and \<^verbatim>\<open>(...) "\<close>.
\<close>

definition remove_text_objects :: "unicode \<Rightarrow> ustr list \<Rightarrow> ustr \<Rightarrow> ustr" where
  "remove_text_objects U wl = re_sub match_text_object (drop_if (should_remove_text_object U wl))"

definition remove_Tj :: "unicode \<Rightarrow> ustr list \<Rightarrow> ustr \<Rightarrow> ustr" where
  "remove_Tj U wl = re_sub (match_operand U lparen rparen (str ''Tj'')) (drop_if (should_remove_inline U wl))"

definition remove_TJ :: "unicode \<Rightarrow> ustr list \<Rightarrow> ustr \<Rightarrow> ustr" where
  "remove_TJ U wl = re_sub (match_operand U 91 93 (str ''TJ'')) (drop_if (should_remove_tj_array U wl))"

definition remove_quote :: "unicode \<Rightarrow> ustr list \<Rightarrow> ustr \<Rightarrow> ustr" where
  "remove_quote U wl = re_sub (match_operand U lparen rparen [39]) (drop_if (should_remove_inline U wl))"

definition remove_dquote :: "unicode \<Rightarrow> ustr list \<Rightarrow> ustr \<Rightarrow> ustr" where
  "remove_dquote U wl = re_sub (match_operand U lparen rparen [34]) (drop_if (should_remove_inline U wl))"

definition rewrite_stream :: "unicode \<Rightarrow> ustr list \<Rightarrow> ustr \<Rightarrow> ustr" where
  "rewrite_stream U wl stream_text =
     remove_dquote U wl (remove_quote U wl (remove_TJ U wl (remove_Tj U wl
       (remove_text_objects U wl stream_text))))"

text \<open>
  What both callers do with the bytes of a stream: decode them as UTF-8 with
  \<^verbatim>\<open>errors='ignore'\<close>, rewrite the text, and, when the text has changed, encode it as
  Latin-1 with \<^verbatim>\<open>errors='ignore'\<close> for \<^verbatim>\<open>doc.update_stream\<close>. \<open>None\<close> stands for
  \<^verbatim>\<open>new_stream_text == original_stream\<close>: nothing is written.
\<close>

definition edit_stream :: "unicode \<Rightarrow> ustr list \<Rightarrow> byte list \<Rightarrow> byte list option" where
  "edit_stream U wl stream_bytes =
     (let original_stream = utf8_decode_ignore stream_bytes;
          new_stream_text = rewrite_stream U wl original_stream
      in if new_stream_text \<noteq> original_stream
         then Some (latin1_encode_ignore new_stream_text) else None)"


section \<open>The document pass\<close>

text \<open>
  The document is PyMuPDF's: the model keeps what the pass reads and writes, the
  annotations and content-stream numbers of every page and the object table with the
  \<^verbatim>\<open>/Type\<close>, the \<^verbatim>\<open>/Subtype\<close> and the decoded stream of every object.
\<close>

record annot =
  annot_content :: ustr
  annot_title :: ustr

record pdf_object =
  obj_type :: ustr
  obj_subtype :: ustr
  obj_stream :: "byte list option"

record page =
  annots :: "annot list"
  contents :: "nat list"

record document =
  pages :: "page list"
  objects :: "nat \<Rightarrow> pdf_object option"
  xref_length :: nat

text \<open>
  The calls into PyMuPDF whose result depends on rendering the page are parameters of
  the model: \<^verbatim>\<open>page.get_text()\<close>, the number of rectangles of
  \<^verbatim>\<open>page.search_for(text)\<close> (a call that raises finds none), \<^verbatim>\<open>page.clean_contents()\<close>
  and \<^verbatim>\<open>page.read_contents()\<close>, the last two with \<open>None\<close> for an exception.
\<close>

record fitz =
  get_text :: "document \<Rightarrow> nat \<Rightarrow> ustr"
  search_for :: "document \<Rightarrow> nat \<Rightarrow> ustr \<Rightarrow> nat"
  clean_contents :: "document \<Rightarrow> nat \<Rightarrow> document option"
  read_contents :: "document \<Rightarrow> nat \<Rightarrow> byte list option"

text \<open>
  The state of a run: the document, and the object numbers that \<^verbatim>\<open>doc.update_stream\<close>
  has written, in the order of the calls.
\<close>

record run =
  doc :: document
  updates :: "nat list"

text \<open>
  \<^verbatim>\<open>doc.update_stream(xref, data)\<close> replaces the stream of a stream object and raises
  for any other object number. The source tries it with \<^verbatim>\<open>compress=False\<close>, then with
  \<^verbatim>\<open>compress=True\<close> (and, for a page, a third time without the option); the decoded
  stream that results is the same, so the attempts are one call here.
\<close>

definition update_stream :: "run \<Rightarrow> nat \<Rightarrow> byte list \<Rightarrow> run option" where
  "update_stream st xref new_stream_bytes =
     (case objects (doc st) xref of
        None \<Rightarrow> None
      | Some obj \<Rightarrow>
          (case obj_stream obj of
             None \<Rightarrow> None
           | Some old \<Rightarrow>
               Some (st\<lparr>doc := (doc st)\<lparr>objects :=
                            (objects (doc st))(xref := Some (obj\<lparr>obj_stream := Some new_stream_bytes\<rparr>))\<rparr>,
                        updates := updates st @ [xref]\<rparr>)))"

text \<open>
  \<^verbatim>\<open>process_form_xobject(doc, xobj_xref, watermark_lowers, page_num)\<close>: the new state and
  the returned flag.
\<close>

definition process_form_xobject :: "unicode \<Rightarrow> run \<Rightarrow> nat \<Rightarrow> ustr list \<Rightarrow> run \<times> bool" where
  "process_form_xobject U st xobj_xref watermark_lowers =
     (case objects (doc st) xobj_xref of
        None \<Rightarrow> (st, False)
      | Some obj \<Rightarrow>
          (case obj_stream obj of
             None \<Rightarrow> (st, False)
           | Some xobj_stream_bytes \<Rightarrow>
               if xobj_stream_bytes = [] then (st, False)
               else if \<not> any_in watermark_lowers (str_lower U (utf8_decode_ignore xobj_stream_bytes))
               then (st, False)
               else
                 (case edit_stream U watermark_lowers xobj_stream_bytes of
                    None \<Rightarrow> (st, False)
                  | Some new_stream_bytes \<Rightarrow>
                      (case update_stream st xobj_xref new_stream_bytes of
                         None \<Rightarrow> (st, False)
                       | Some st' \<Rightarrow> (st', True)))))"

text \<open>
  The body of the loop \<^verbatim>\<open>for xref_num in range(1, doc.xref_length())\<close>: a form XObject
  whose stream, read as Latin-1 and lowercased, contains a needle is processed.
\<close>

definition visit_xref :: "unicode \<Rightarrow> ustr list \<Rightarrow> run \<Rightarrow> nat \<Rightarrow> run" where
  "visit_xref U watermark_lowers st xref_num =
     (case objects (doc st) xref_num of
        None \<Rightarrow> st
      | Some obj \<Rightarrow>
          if obj_type obj = str ''/XObject'' \<and> obj_subtype obj = str ''/Form'' then
            (case obj_stream obj of
               None \<Rightarrow> st
             | Some stream_bytes \<Rightarrow>
                 if stream_bytes \<noteq> []
                    \<and> any_in watermark_lowers (str_lower U (latin1_decode stream_bytes))
                 then fst (process_form_xobject U st xref_num watermark_lowers)
                 else st)
          else st)"

definition process_xobjects :: "unicode \<Rightarrow> ustr list \<Rightarrow> run \<Rightarrow> run" where
  "process_xobjects U watermark_lowers st =
     foldl (visit_xref U watermark_lowers) st [1 ..< xref_length (doc st)]"

text \<open>The annotations of a page whose content or title contains a needle are deleted.\<close>

definition annot_hit :: "unicode \<Rightarrow> ustr list \<Rightarrow> annot \<Rightarrow> bool" where
  "annot_hit U watermark_lowers a =
     list_ex (\<lambda>wm_lower. contains wm_lower (str_lower U (annot_content a))
                        \<or> contains wm_lower (str_lower U (annot_title a))) watermark_lowers"

definition delete_annots :: "unicode \<Rightarrow> ustr list \<Rightarrow> nat \<Rightarrow> document \<Rightarrow> document" where
  "delete_annots U watermark_lowers page_num d =
     d\<lparr>pages := (pages d)[page_num :=
          (pages d ! page_num)\<lparr>annots := filter (\<lambda>a. \<not> annot_hit U watermark_lowers a)
                                            (annots (pages d ! page_num))\<rparr>]\<rparr>"

text \<open>
  The write-back of a page's stream: \<^verbatim>\<open>page.get_contents()\<close> must be non-empty, the
  first content stream is updated, and after a successful update the page is cleaned
  once more (an exception there is passed over).
\<close>

definition write_page_stream :: "fitz \<Rightarrow> nat \<Rightarrow> byte list \<Rightarrow> run \<Rightarrow> run" where
  "write_page_stream fz page_num new_stream_bytes st =
     (case contents (pages (doc st) ! page_num) of
        [] \<Rightarrow> st
      | xref # _ \<Rightarrow>
          (case update_stream st xref new_stream_bytes of
             None \<Rightarrow> st
           | Some st' \<Rightarrow>
               (case clean_contents fz (doc st') page_num of
                  None \<Rightarrow> st'
                | Some d \<Rightarrow> st'\<lparr>doc := d\<rparr>)))"

text \<open>
  One iteration of \<^verbatim>\<open>for page_num in range(len(doc))\<close>. Every \<^verbatim>\<open>continue\<close> and every
  exception caught by the \<^verbatim>\<open>try\<close> around the stream work ends the iteration with the
  state reached so far.
\<close>

definition process_page :: "unicode \<Rightarrow> fitz \<Rightarrow> ustr list \<Rightarrow> run \<Rightarrow> nat \<Rightarrow> run" where
  "process_page U fz watermark_list st page_num =
     (let watermark_lowers = map (str_lower U) watermark_list in
      if watermark_list = [] then st
      else if \<not> any_in watermark_lowers (str_lower U (get_text fz (doc st) page_num)) then st
      else
        (let st1 = st\<lparr>doc := delete_annots U watermark_lowers page_num (doc st)\<rparr> in
         case clean_contents fz (doc st1) page_num of
           None \<Rightarrow> st1
         | Some d2 \<Rightarrow>
             (let st2 = st1\<lparr>doc := d2\<rparr> in
              if list_all (\<lambda>watermark_text. search_for fz d2 page_num watermark_text = 0)
                   watermark_list
              then st2
              else
                (case read_contents fz d2 page_num of
                   None \<Rightarrow> st2
                 | Some stream_bytes \<Rightarrow>
                     if stream_bytes = [] then st2
                     else
                       (let st3 = process_xobjects U watermark_lowers st2 in
                        case edit_stream U watermark_lowers stream_bytes of
                          None \<Rightarrow> st3
                        | Some new_stream_bytes \<Rightarrow>
                            write_page_stream fz page_num new_stream_bytes st3)))))"

text \<open>
  \<^verbatim>\<open>remove_watermark_pymupdf\<close> up to \<^verbatim>\<open>doc.save\<close>: \<open>watermark_strings\<close> is \<open>None\<close> or
  a list. The verification that follows the save only reads the saved document and
  prints.
\<close>

definition remove_watermark_pymupdf ::
  "unicode \<Rightarrow> fitz \<Rightarrow> document \<Rightarrow> ustr list option \<Rightarrow> run" where
  "remove_watermark_pymupdf U fz d watermark_strings =
     (let watermark_list = (case watermark_strings of None \<Rightarrow> [] | Some l \<Rightarrow> l) in
      foldl (process_page U fz watermark_list) \<lparr>doc = d, updates = []\<rparr> [0 ..< length (pages d)])"


section \<open>The content of a TJ array\<close>







section \<open>Example documents\<close>

text \<open>
  Concrete documents for the examples below, and a concrete stand-in for the rendering
  calls: the text of a page is the concatenation of the literal strings of its first
  content stream, \<^verbatim>\<open>search_for\<close> finds a text when the page text contains it (both
  lowercased by the Latin-1 table), \<^verbatim>\<open>clean_contents\<close> leaves the document as it is and
  \<^verbatim>\<open>read_contents\<close> returns the first content stream.
\<close>

definition page_stream :: "document \<Rightarrow> nat \<Rightarrow> byte list option" where
  "page_stream d p =
     (case contents (pages d ! p) of
        [] \<Rightarrow> None
      | x # _ \<Rightarrow> (case objects d x of None \<Rightarrow> None | Some obj \<Rightarrow> obj_stream obj))"

definition shown_text :: "document \<Rightarrow> nat \<Rightarrow> ustr" where
  "shown_text d p =
     (case page_stream d p of None \<Rightarrow> [] | Some bs \<Rightarrow> concat (literal_strings (latin1_decode bs)))"

definition strings_fitz :: fitz where
  "strings_fitz =
     \<lparr>get_text = shown_text,
      search_for = (\<lambda>d p w. if contains (map lower_cp w) (map lower_cp (shown_text d p))
                              then 1 else 0),
      clean_contents = (\<lambda>d p. Some d),
      read_contents = page_stream\<rparr>"

definition stream_object :: "string \<Rightarrow> string \<Rightarrow> string \<Rightarrow> pdf_object" where
  "stream_object t st s = \<lparr>obj_type = str t, obj_subtype = str st, obj_stream = Some (bstr s)\<rparr>"

text \<open>
  An object that is no XObject has no \<^verbatim>\<open>/Type\<close> and no \<^verbatim>\<open>/Subtype\<close>:
  \<^verbatim>\<open>doc.xref_get_key\<close> returns \<^verbatim>\<open>null\<close> for both.
\<close>


text \<open>
  A page that shows no text and carries an annotation whose content is the needle
  \<^verbatim>\<open>secret\<close>.
\<close>

definition annotated_doc :: document where
  "annotated_doc =
     \<lparr>pages = [\<lparr>annots = [\<lparr>annot_content = str ''secret'', annot_title = []\<rparr>],
               contents = [1]\<rparr>],
      objects = (\<lambda>x. if x = 1 then Some (stream_object ''null'' ''null'' ''q Q'') else None),
      xref_length = 2\<rparr>"


section \<open>Facts about the scanner and the patterns\<close>



lemma scan_literal_open:
  "rparen \<notin> set t \<Longrightarrow> scan_literal t acc = None"
  by (induction t acc rule: scan_literal.induct) (auto split: list.splits simp del: set_map)

lemma scan_literal_append:
  "rparen \<notin> set t \<Longrightarrow>
   scan_literal (s @ t) acc =
     (case scan_literal s acc of None \<Rightarrow> None | Some (c, r) \<Rightarrow> Some (c, r @ t))"
proof (induction s acc rule: scan_literal.induct)
  case (1 content)
  then show ?case by (simp add: scan_literal_open)
next
  case (2 c cs content)
  show ?case
  proof (cases cs)
    case Nil
    with 2 show ?thesis
      by (cases t) (auto simp: scan_literal_open simp del: set_map)
  next
    case (Cons e r)
    with 2 show ?thesis by (auto simp del: set_map)
  qed
qed

lemma literal_strings_open:
  "rparen \<notin> set t \<Longrightarrow> literal_strings t = []"
  by (induction t rule: literal_strings.induct) (auto simp: scan_literal_open)

lemma literal_strings_open_tail:
  "rparen \<notin> set t \<Longrightarrow> literal_strings (s @ lparen # t) = literal_strings s"
proof (induction s rule: literal_strings.induct)
  case 1
  then show ?case by (simp add: scan_literal_open literal_strings_open)
next
  case (2 c cs)
  have nr: "rparen \<notin> set (lparen # t)" using 2(4) by simp
  show ?case
  proof (cases "c = lparen")
    case False
    with 2 show ?thesis by simp
  next
    case True
    show ?thesis
    proof (cases "scan_literal cs []")
      case None
      with True 2 nr show ?thesis by (simp add: scan_literal_append del: set_simps)
    next
      case (Some a)
      obtain content r where a: "a = (content, r)" by (cases a)
      with True Some 2 nr show ?thesis by (simp add: scan_literal_append del: set_simps)
    qed
  qed
qed



lemma not_hexdigit_62: "\<not> is_hexdigit 62"
  by (simp add: is_hexdigit_def)

lemma match_hex_single:
  "ds \<noteq> [] \<Longrightarrow> list_all is_hexdigit ds \<Longrightarrow>
   match_hex (60 # ds @ 62 # r) = Some (ds, length ds + 2)"
  by (simp add: match_hex_def list_all_iff takeWhile_append2 dropWhile_append2 not_hexdigit_62)

subsection \<open>Rewriting only deletes\<close>













subsection \<open>The document pass\<close>










lemma process_page_gate:
  "\<not> any_in (map (str_lower U) wl) (str_lower U (get_text fz (doc st) p)) \<Longrightarrow>
   process_page U fz wl st p = st"
  by (simp add: process_page_def Let_def)

lemma process_page_no_needles: "process_page U fz [] st p = st"
  by (simp add: process_page_def Let_def)

lemma foldl_unchanged: "\<forall>p\<in>set ps. f st p = st \<Longrightarrow> foldl f st ps = st"
  by (induction ps) simp_all

subsection \<open>TJ arrays\<close>






subsection \<open>A literal string left open at the end\<close>

lemma re_sub_fixed:
  "(\<And>y. suffix y s \<Longrightarrow> m y = None) \<Longrightarrow> re_sub m r s = s"
proof (induction s)
  case Nil
  show ?case by simp
next
  case (Cons c cs)
  have "m (c # cs) = None" by (rule Cons.prems) simp
  moreover have "re_sub m r cs = cs"
    by (rule Cons.IH) (rule Cons.prems, rule suffix_ConsI)
  ultimately show ?case by simp
qed

lemma re_sub_tail:
  assumes stab: "\<And>x. x \<noteq> [] \<Longrightarrow> m (x @ T) = m x"
    and bound: "\<And>x g n. m x = Some (g, n) \<Longrightarrow> n \<le> length x"
    and fixed: "re_sub m r T = T"
  shows "re_sub m r (s @ T) = re_sub m r s @ T"
proof (induction "length s" arbitrary: s rule: less_induct)
  case less
  show ?case
  proof (cases s)
    case Nil
    then show ?thesis by (simp add: fixed)
  next
    case (Cons c cs)
    have m1: "m (c # cs @ T) = m (c # cs)" using stab [of "c # cs"] by simp
    show ?thesis
    proof (cases "m (c # cs)")
      case None
      have "re_sub m r (cs @ T) = re_sub m r cs @ T" by (rule less) (simp add: Cons)
      with None m1 Cons show ?thesis by simp
    next
      case (Some a)
      obtain g n where a: "a = (g, n)" by (cases a)
      from Some a have n: "n \<le> Suc (length cs)" using bound [of "c # cs" g n] by simp
      then have t: "take n (c # cs @ T) = take n (c # cs)" by (cases n) simp_all
      from n have d: "drop (n - 1) (cs @ T) = drop (n - 1) cs @ T" by simp
      have "re_sub m r (drop (n - 1) cs @ T) = re_sub m r (drop (n - 1) cs) @ T"
        by (rule less) (simp add: Cons)
      with Some a m1 Cons t d show ?thesis by simp
    qed
  qed
qed

lemma find_ET_none: "69 \<notin> set s \<Longrightarrow> find_ET s = None"
  by (induction s) auto

lemma find_ET_tail: "69 \<notin> set t \<Longrightarrow> find_ET (y @ lparen # t) = find_ET y"
proof (induction y)
  case Nil
  then show ?case using find_ET_none [of "lparen # t"] by simp
next
  case (Cons c y)
  then have ih: "find_ET (y @ lparen # t) = find_ET y" by simp
  have "prefix [69, 84] (c # y @ lparen # t) = prefix [69, 84] (c # y)"
    by (cases y) simp_all
  with ih show ?case by simp
qed

lemma find_ET_length: "find_ET s = Some g \<Longrightarrow> length g + 2 \<le> length s"
proof (induction s arbitrary: g)
  case Nil
  then show ?case by simp
next
  case (Cons c cs)
  show ?case
  proof (cases "prefix [69, 84] (c # cs)")
    case True
    with Cons.prems have "g = []" by simp
    moreover from True have "2 \<le> length (c # cs)" by (cases cs) simp_all
    ultimately show ?thesis by simp
  next
    case False
    with Cons.prems obtain g' where "find_ET cs = Some g'" "g = c # g'" by auto
    with Cons.IH [of g'] show ?thesis by simp
  qed
qed

lemma match_text_object_tail:
  assumes "x \<noteq> []" and "69 \<notin> set t"
  shows "match_text_object (x @ lparen # t) = match_text_object x"
proof (cases "prefix [66, 84] x")
  case True
  then obtain x' where x: "x = 66 # 84 # x'" by (auto simp: prefix_def)
  show ?thesis by (simp add: x match_text_object_def find_ET_tail [OF assms(2)])
next
  case False
  then have "\<not> prefix [66, 84] (x @ lparen # t)"
    using assms(1) by (cases x; cases "tl x") auto
  with False show ?thesis by (simp add: match_text_object_def)
qed

lemma match_text_object_bound:
  "match_text_object x = Some (g, n) \<Longrightarrow> n \<le> length x"
proof -
  assume a: "match_text_object x = Some (g, n)"
  then have p: "prefix [66, 84] x" by (simp add: match_text_object_def split: if_splits)
  then obtain x' where x: "x = 66 # 84 # x'" by (auto simp: prefix_def)
  from a x have "find_ET x' = Some g" "n = length g + 4"
    by (auto simp: match_text_object_def split: option.splits)
  with find_ET_length [of x' g] x show ?thesis by simp
qed

lemma match_text_object_fixed:
  assumes "69 \<notin> set s" and "suffix y s"
  shows "match_text_object y = None"
proof -
  from assms(2) have "set y \<subseteq> set s" by (rule set_mono_suffix)
  with assms(1) have "69 \<notin> set (drop 2 y)" by (auto dest: in_set_dropD)
  then have "find_ET (drop 2 y) = None" by (rule find_ET_none)
  then show ?thesis by (simp add: match_text_object_def)
qed


lemma prefix_tail:
  assumes "h \<notin> set op"
  shows "prefix op (r3 @ h # t) = prefix op r3"
proof
  assume "prefix op (r3 @ h # t)"
  then consider "prefix op r3" | us where "op = r3 @ us" "prefix us (h # t)"
    by (auto simp: prefix_append)
  then show "prefix op r3"
  proof cases
    case 1
    then show ?thesis .
  next
    case 2
    show ?thesis
    proof (cases us)
      case Nil
      with 2 show ?thesis by simp
    next
      case (Cons u us')
      with 2(2) have "u = h" by simp
      with Cons 2(1) assms show ?thesis by simp
    qed
  qed
next
  assume "prefix op r3"
  then show "prefix op (r3 @ h # t)" by (rule prefix_prefix)
qed

lemma word_boundary_tail:
  assumes "\<not> re_word U h" and "prefix op r3"
  shows "word_boundary U p (drop (length op) (r3 @ h # t))
         = word_boundary U p (drop (length op) r3)"
proof -
  from assms(2) obtain r4 where r3: "r3 = op @ r4" by (auto simp: prefix_def)
  show ?thesis using assms(1) by (cases r4) (simp_all add: r3 word_boundary_def)
qed

text \<open>
  What \<open>match_operand\<close> does behind the closing delimiter, as a function of its own.
\<close>

definition after_operand :: "unicode \<Rightarrow> ustr \<Rightarrow> ustr \<Rightarrow> ustr \<Rightarrow> (ustr \<times> nat) option" where
  "after_operand U op g r2 =
     (let ws = takeWhile (re_space U) r2; r3 = dropWhile (re_space U) r2 in
      if ws = [] \<or> \<not> prefix op r3 then None
      else if \<not> word_boundary U (last op) (drop (length op) r3) then None
      else Some (g, 1 + length g + 1 + length ws + length op))"

lemma takeWhile_until:
  "cls \<notin> set g \<Longrightarrow> takeWhile (\<lambda>x. x \<noteq> cls) (g @ cls # r2) = g"
  by (induction g) auto

lemma dropWhile_until:
  "cls \<notin> set g \<Longrightarrow> dropWhile (\<lambda>x. x \<noteq> cls) (g @ cls # r2) = cls # r2"
  by (induction g) auto

lemma dropWhile_absent:
  "cls \<notin> set r \<Longrightarrow> dropWhile (\<lambda>x. x \<noteq> cls) r = []"
  by (induction r) auto

lemma match_operand_closed:
  "cls \<notin> set g \<Longrightarrow>
   match_operand U opn cls op (opn # g @ cls # r2) = after_operand U op g r2"
  by (simp only: match_operand_def after_operand_def takeWhile_until dropWhile_until
      list.case if_False simp_thms Let_def)

lemma match_operand_open:
  "cls \<notin> set r \<Longrightarrow> match_operand U opn cls op (c # r) = None"
proof -
  assume "cls \<notin> set r"
  then have d: "dropWhile (\<lambda>x. x \<noteq> cls) r = []" by (rule dropWhile_absent)
  show ?thesis
    by (simp only: match_operand_def list.case Let_def d if_cancel cong: if_cong)
qed

lemma match_operand_other:
  "c \<noteq> opn \<Longrightarrow> match_operand U opn cls op (c # r) = None"
  by (simp add: match_operand_def)

lemma after_operand_tail:
  assumes "\<not> re_space U h" "\<not> re_word U h" "h \<notin> set op"
  shows "after_operand U op g (r2 @ h # t) = after_operand U op g r2"
proof -
  have tw: "takeWhile (re_space U) (r2 @ h # t) = takeWhile (re_space U) r2"
    using assms(1) by (rule takeWhile_tail)
  have dw: "dropWhile (re_space U) (r2 @ h # t) = dropWhile (re_space U) r2 @ h # t"
    using assms(1) by (rule dropWhile_append3)
  show ?thesis
  proof (cases "prefix op (dropWhile (re_space U) r2)")
    case True
    then show ?thesis
      by (simp add: after_operand_def Let_def tw dw prefix_tail [OF assms(3)]
          word_boundary_tail [OF assms(2)] del: drop_append cong: if_cong)
  next
    case False
    then show ?thesis
      by (simp add: after_operand_def tw dw prefix_tail [OF assms(3)])
  qed
qed

lemma match_operand_tail:
  assumes "x \<noteq> []" and "cls \<notin> set (h # t)"
    and "\<not> re_space U h" "\<not> re_word U h" "h \<notin> set op"
  shows "match_operand U opn cls op (x @ h # t) = match_operand U opn cls op x"
proof -
  from assms(1) obtain c r where x: "x = c # r" by (cases x) auto
  show ?thesis
  proof (cases "c = opn")
    case False
    then show ?thesis by (simp add: x match_operand_other)
  next
    case True
    show ?thesis
    proof (cases "cls \<in> set r")
      case False
      with assms(2) have "cls \<notin> set (r @ h # t)" by simp
      then have "match_operand U opn cls op (c # r @ h # t) = None"
        by (rule match_operand_open)
      moreover from False have "match_operand U opn cls op (c # r) = None"
        by (rule match_operand_open)
      ultimately show ?thesis by (simp add: x)
    next
      case in_r: True
      then obtain g r2 where r: "r = g @ cls # r2" and g: "cls \<notin> set g"
        by (auto dest: split_list_first)
      have "match_operand U opn cls op (opn # g @ cls # (r2 @ h # t))
            = after_operand U op g (r2 @ h # t)"
        using g by (rule match_operand_closed)
      moreover have "match_operand U opn cls op (opn # g @ cls # r2) = after_operand U op g r2"
        using g by (rule match_operand_closed)
      ultimately show ?thesis
        by (simp add: x r True after_operand_tail [OF assms(3,4,5)])
    qed
  qed
qed

lemma after_operand_bound:
  "after_operand U op g r2 = Some (g', n) \<Longrightarrow> n \<le> length g + 2 + length r2"
proof -
  assume a: "after_operand U op g r2 = Some (g', n)"
  let ?ws = "takeWhile (re_space U) r2" and ?r3 = "dropWhile (re_space U) r2"
  from a have p: "prefix op ?r3" and n: "n = 1 + length g + 1 + length ?ws + length op"
    by (auto simp: after_operand_def Let_def split: if_splits)
  from p have "length op \<le> length ?r3" by (rule prefix_length_le)
  moreover have "length ?ws + length ?r3 = length r2"
  proof -
    have "length (?ws @ ?r3) = length r2" by (simp only: takeWhile_dropWhile_id)
    then show ?thesis by (simp only: length_append)
  qed
  ultimately show ?thesis using n by simp
qed

lemma match_operand_bound:
  "match_operand U opn cls op x = Some (g', n) \<Longrightarrow> n \<le> length x"
proof (cases x)
  case Nil
  assume "match_operand U opn cls op x = Some (g', n)"
  with Nil show ?thesis by (simp add: match_operand_def)
next
  case (Cons c r)
  assume a: "match_operand U opn cls op x = Some (g', n)"
  with Cons have c: "c = opn" using match_operand_other [of c opn U cls op r] by auto
  from a Cons have "cls \<in> set r" using match_operand_open [of cls r U opn op c] by auto
  then obtain g r2 where r: "r = g @ cls # r2" and g: "cls \<notin> set g"
    by (auto dest: split_list_first)
  from a Cons c r have "after_operand U op g r2 = Some (g', n)"
    using match_operand_closed [OF g, of U opn op r2] by simp
  then have "n \<le> length g + 2 + length r2" by (rule after_operand_bound)
  with Cons r show ?thesis by simp
qed

lemma match_operand_fixed:
  assumes "cls \<notin> set s" and "suffix y s"
  shows "match_operand U opn cls op y = None"
proof (cases y)
  case Nil
  then show ?thesis by (simp add: match_operand_def)
next
  case (Cons c r)
  from assms(2) have "set y \<subseteq> set s" by (rule set_mono_suffix)
  with assms(1) Cons have "cls \<notin> set r" by auto
  then show ?thesis unfolding Cons by (rule match_operand_open)
qed

lemma re_sub_operand_tail:
  assumes "cls \<notin> set (h # t)" "\<not> re_space U h" "\<not> re_word U h" "h \<notin> set op"
  shows "re_sub (match_operand U opn cls op) r (s @ h # t)
         = re_sub (match_operand U opn cls op) r s @ h # t"
proof (rule re_sub_tail)
  fix x :: ustr
  assume "x \<noteq> []"
  then show "match_operand U opn cls op (x @ h # t) = match_operand U opn cls op x"
    using assms by (rule match_operand_tail)
next
  fix x g n
  assume "match_operand U opn cls op x = Some (g, n)"
  then show "n \<le> length x" by (rule match_operand_bound)
next
  show "re_sub (match_operand U opn cls op) r (h # t) = h # t"
    by (rule re_sub_fixed) (rule match_operand_fixed [OF assms(1)])
qed

lemma re_sub_text_object_tail:
  assumes "69 \<notin> set t"
  shows "re_sub match_text_object r (s @ lparen # t) = re_sub match_text_object r s @ lparen # t"
proof (rule re_sub_tail)
  fix x :: ustr
  assume "x \<noteq> []"
  then show "match_text_object (x @ lparen # t) = match_text_object x"
    using assms by (rule match_text_object_tail)
next
  fix x g n
  assume "match_text_object x = Some (g, n)"
  then show "n \<le> length x" by (rule match_text_object_bound)
next
  from assms have "69 \<notin> set (lparen # t)" by simp
  then show "re_sub match_text_object r (lparen # t) = lparen # t"
    by (intro re_sub_fixed match_text_object_fixed)
qed

lemma rewrite_stream_open_tail:
  assumes "rparen \<notin> set t" "93 \<notin> set t" "69 \<notin> set t"
    and "\<not> re_space U lparen" "\<not> re_word U lparen"
  shows "rewrite_stream U wl (s @ lparen # t) = rewrite_stream U wl s @ lparen # t"
proof -
  have p: "rparen \<notin> set (lparen # t)" using assms(1) by simp
  have b: "93 \<notin> set (lparen # t)" using assms(2) by simp
  have 1: "remove_text_objects U wl (s @ lparen # t) = remove_text_objects U wl s @ lparen # t"
    by (simp add: remove_text_objects_def re_sub_text_object_tail [OF assms(3)])
  have 2: "remove_Tj U wl (x @ lparen # t) = remove_Tj U wl x @ lparen # t" for x
    unfolding remove_Tj_def by (rule re_sub_operand_tail [OF p assms(4,5)]) simp
  have 3: "remove_TJ U wl (x @ lparen # t) = remove_TJ U wl x @ lparen # t" for x
    unfolding remove_TJ_def by (rule re_sub_operand_tail [OF b assms(4,5)]) simp
  have 4: "remove_quote U wl (x @ lparen # t) = remove_quote U wl x @ lparen # t" for x
    unfolding remove_quote_def by (rule re_sub_operand_tail [OF p assms(4,5)]) simp
  have 5: "remove_dquote U wl (x @ lparen # t) = remove_dquote U wl x @ lparen # t" for x
    unfolding remove_dquote_def by (rule re_sub_operand_tail [OF p assms(4,5)]) simp
  show ?thesis by (simp only: rewrite_stream_def 1 2 3 4 5)
qed

section \<open>Claims\<close>

subsection \<open>C1: the rewrite as a byte-range deletion\<close>

text \<open>
  C1 says that the rewritten buffer is the original with the deleted ranges taken out,
  every other byte kept, bytes that are not valid UTF-8 included. The code decodes the
  stream as UTF-8 with \<^verbatim>\<open>errors='ignore'\<close> and encodes the rewritten text as Latin-1.
  With the needle \<^verbatim>\<open>secret\<close>, the stream that starts with the byte 0xFF and goes on
  with \<^verbatim>\<open>q (secret) Tj\<close> is written back as \<^verbatim>\<open>q \<close>: the byte 0xFF, which stands
  outside the deleted invocation of 11 bytes, is gone, and the length is 2 and not 3.
  The two bytes 0xC3 0xA9 of a stream come back as the single byte 0xE9.
\<close>

theorem non_ascii_bytes_not_preserved:
  "edit_stream latin1_tables [str ''secret''] (0xFF # bstr ''q (secret) Tj'') = Some (bstr ''q '')
   \<and> length (bstr ''q '') \<noteq> length (0xFF # bstr ''q (secret) Tj'') - length (bstr ''(secret) Tj'')
   \<and> edit_stream latin1_tables [str ''secret'']
         ([0x63, 0x61, 0x66, 0xC3, 0xA9] @ bstr '' (secret) Tj'')
        = Some [0x63, 0x61, 0x66, 0xE9, 0x20]"
  by code_simp

subsection \<open>C2: form objects shared by pages\<close>




subsection \<open>C3: nested parentheses\<close>




subsection \<open>C4: a second run\<close>




subsection \<open>C5: TJ arrays\<close>




subsection \<open>C6: escape sequences\<close>

text \<open>
  C6 says that \<^verbatim>\<open>\n\<close> and \<^verbatim>\<open>\t\<close> decode to their control bytes, that \<^verbatim>\<open>\\\<close> decodes
  to one content byte, and that any other escaped byte decodes to itself. The scanner
  decodes \<^verbatim>\<open>\(hi\)\<close> to \<^verbatim>\<open>(hi)\<close>, but it appends the letter behind the backslash for
  \<^verbatim>\<open>\n\<close> and \<^verbatim>\<open>\t\<close> (\<^verbatim>\<open>(a\nb)\<close> gives \<^verbatim>\<open>anb\<close>), and nothing at all for \<^verbatim>\<open>\\\<close>
  and for a backslash before any other character.
\<close>

theorem escape_decoding_eval:
  "literal_strings ([lparen, backslash, lparen] @ str ''hi'' @ [backslash, rparen, rparen]) = [str ''(hi)'']
   \<and> literal_strings (str ''(a'' @ [backslash] @ str ''nb)'') = [str ''anb'']
   \<and> literal_strings (str ''(a'' @ [backslash] @ str ''tb)'') = [str ''atb'']
   \<and> literal_strings (str ''(a'' @ [backslash, backslash] @ str ''b)'') = [str ''ab'']
   \<and> literal_strings (str ''(a'' @ [backslash] @ str ''qb)'') = [str ''ab'']"
  by code_simp

subsection \<open>C7: unterminated literal strings\<close>

text \<open>
  C7 says that a stream with a literal string left open at the end of the buffer is not
  edited. The stream \<^verbatim>\<open>(SECRET) Tj (abc\<close> is edited: the first invocation is deleted and
  the rest written back.
\<close>

theorem unterminated_literal_counterexample:
  "edit_stream latin1_tables [str ''secret''] (bstr ''(SECRET) Tj (abc'') = Some (bstr '' (abc'')"
  by code_simp

text \<open>
  C7, as amended: a literal string left open at the end of the buffer is no error and
  stops nothing. When no closing parenthesis follows its opening one, the loop over the
  literal strings finds the strings of the buffer before it and none in it, while the
  hex strings are still taken from the whole buffer. When moreover the open string holds
  no \<^verbatim>\<open>]\<close> and no \<^verbatim>\<open>E\<close> (and the opening parenthesis is neither white space nor a
  word character), the rewrite of the buffer is the rewrite of what stands before the
  open string, followed by the open string unchanged.
\<close>

theorem open_literal_stops_nothing:
  assumes "rparen \<notin> set t" and "93 \<notin> set t" and "69 \<notin> set t"
    and "\<not> re_space U lparen" and "\<not> re_word U lparen"
  shows "literal_strings (s @ lparen # t) = literal_strings s
         \<and> extract_all_text_from_stream U (s @ lparen # t)
             = str_lower U (join_space (literal_strings s @ hex_texts (s @ lparen # t)))
         \<and> rewrite_stream U wl (s @ lparen # t) = rewrite_stream U wl s @ lparen # t"
  using assms
  by (simp add: literal_strings_open_tail extract_all_text_from_stream_def
      rewrite_stream_open_tail)

theorem open_literal_stops_nothing_witness:
  "rparen \<notin> set (str ''abc'') \<and> 93 \<notin> set (str ''abc'') \<and> 69 \<notin> set (str ''abc'')
   \<and> \<not> re_space latin1_tables lparen \<and> \<not> re_word latin1_tables lparen
   \<and> literal_strings (str ''(SECRET) Tj '' @ lparen # str ''abc'') = [str ''SECRET'']
   \<and> rewrite_stream latin1_tables [str ''secret''] (str ''(SECRET) Tj '' @ lparen # str ''abc'')
       = str '' '' @ lparen # str ''abc''
   \<and> rparen \<notin> set (str ''<736563726574>'') \<and> 93 \<notin> set (str ''<736563726574>'')
   \<and> 69 \<notin> set (str ''<736563726574>'')
   \<and> extract_all_text_from_stream latin1_tables (str ''(abc) Tj '' @ lparen # str ''<736563726574>'')
       = str ''abc secret''"
proof -
  have h1: "rparen \<notin> set (str ''abc'')" by simp
  have h2: "93 \<notin> set (str ''abc'')" by simp
  have h3: "69 \<notin> set (str ''abc'')" by simp
  have h4: "\<not> re_space latin1_tables lparen" by (simp add: latin1_tables_def latin1_space_def)
  have h5: "\<not> re_word latin1_tables lparen" by (simp add: latin1_tables_def latin1_word_def)
  have l: "literal_strings (str ''(SECRET) Tj '') = [str ''SECRET'']" by code_simp
  have r: "rewrite_stream latin1_tables [str ''secret''] (str ''(SECRET) Tj '') = str '' ''"
    by code_simp
  note t = open_literal_stops_nothing [OF h1 h2 h3 h4 h5, of "str ''(SECRET) Tj ''" "[str ''secret'']"]
  from t l have 1: "literal_strings (str ''(SECRET) Tj '' @ lparen # str ''abc'') = [str ''SECRET'']"
    by (simp only:)
  from t r have 2: "rewrite_stream latin1_tables [str ''secret'']
        (str ''(SECRET) Tj '' @ lparen # str ''abc'') = str '' '' @ lparen # str ''abc''"
    by (simp only:)
  have k1: "rparen \<notin> set (str ''<736563726574>'')" by simp
  have k2: "93 \<notin> set (str ''<736563726574>'')" by simp
  have k3: "69 \<notin> set (str ''<736563726574>'')" by simp
  have x: "str_lower latin1_tables (join_space (literal_strings (str ''(abc) Tj '')
             @ hex_texts (str ''(abc) Tj '' @ lparen # str ''<736563726574>'')))
           = str ''abc secret''"
    by code_simp
  note u = open_literal_stops_nothing [OF k1 k2 k3 h4 h5, of "str ''(abc) Tj ''" "[]"]
  from u x have 3: "extract_all_text_from_stream latin1_tables
        (str ''(abc) Tj '' @ lparen # str ''<736563726574>'') = str ''abc secret''"
    by (simp only:)
  from h1 h2 h3 h4 h5 1 2 k1 k2 k3 3 show ?thesis by (intro conjI)
qed

subsection \<open>C8: hex strings with an odd number of digits\<close>

text \<open>
  C8 says that a hex string with an odd number of digits is padded with a zero nibble and
  decoded. The source decodes a hex string only if \<^verbatim>\<open>len(hex_str) % 2 == 0\<close>:
  \<^verbatim>\<open><414>\<close> gives no text, and an array holding it is not matched by the needle \<^verbatim>\<open>a@\<close>
  that the padded string \<^verbatim>\<open><4140>\<close> would give.
\<close>

theorem odd_hex_string_counterexample:
  "hex_texts (str ''<414>'') = []
   \<and> rewrite_stream latin1_tables [str ''a@''] (str ''[<414>] TJ'') = str ''[<414>] TJ''
   \<and> rewrite_stream latin1_tables [str ''a@''] (str ''[<4140>] TJ'') = []"
  by code_simp

text \<open>
  C8, as amended: a hex string, \<^verbatim>\<open><\<close>, hex digits and \<^verbatim>\<open>>\<close> with nothing else
  between them, is decoded and takes part in matching when the number of its digits is
  even; with an odd number of digits it is passed over, without padding and without an
  error, and gives no text.
\<close>

theorem hex_string_decoded_iff_even:
  "ds \<noteq> [] \<Longrightarrow> list_all is_hexdigit ds \<Longrightarrow>
   hex_texts (60 # ds @ [62]) =
     (if length ds mod 2 = 0 then [utf8_decode_ignore (fromhex ds)] else [])"
  by (simp add: hex_texts_def match_hex_single)

theorem hex_string_decoded_iff_even_witness:
  "str ''414'' \<noteq> [] \<and> list_all is_hexdigit (str ''414'')
   \<and> hex_texts (60 # str ''414'' @ [62]) = []
   \<and> str ''4140'' \<noteq> [] \<and> list_all is_hexdigit (str ''4140'')
   \<and> hex_texts (60 # str ''4140'' @ [62]) = [str ''A@'']"
proof -
  have a1: "str ''414'' \<noteq> []" by simp
  have a2: "list_all is_hexdigit (str ''414'')" by (simp add: is_hexdigit_def)
  have b1: "str ''4140'' \<noteq> []" by simp
  have b2: "list_all is_hexdigit (str ''4140'')" by (simp add: is_hexdigit_def)
  have d: "utf8_decode_ignore (fromhex (str ''4140'')) = str ''A@''" by code_simp
  from hex_string_decoded_iff_even [OF a1 a2]
  have a: "hex_texts (60 # str ''414'' @ [62]) = []" by simp
  from hex_string_decoded_iff_even [OF b1 b2] d
  have b: "hex_texts (60 # str ''4140'' @ [62]) = [str ''A@'']" by simp
  from a1 a2 a b1 b2 b show ?thesis by blast
qed

subsection \<open>C9: needles that match nothing\<close>

text \<open>
  C9: when the needle list is missing or empty, or when no lowercased needle occurs in
  the lowercased text of any page, the run leaves the document as it was and writes no
  stream: the list of updates is empty, its length, the count of edited streams, is 0.
  This holds for every lowercasing function, Python's among them.
\<close>

theorem no_match_pass_through:
  "remove_watermark_pymupdf U fz d None = \<lparr>doc = d, updates = []\<rparr>
   \<and> remove_watermark_pymupdf U fz d (Some []) = \<lparr>doc = d, updates = []\<rparr>
   \<and> ((\<forall>p < length (pages d).
          \<not> any_in (map (str_lower U) wl) (str_lower U (get_text fz d p))) \<longrightarrow>
        remove_watermark_pymupdf U fz d (Some wl) = \<lparr>doc = d, updates = []\<rparr>
        \<and> length (updates (remove_watermark_pymupdf U fz d (Some wl))) = 0)"
proof (intro conjI impI)
  show "remove_watermark_pymupdf U fz d None = \<lparr>doc = d, updates = []\<rparr>"
    by (simp add: remove_watermark_pymupdf_def foldl_unchanged process_page_no_needles)
  show "remove_watermark_pymupdf U fz d (Some []) = \<lparr>doc = d, updates = []\<rparr>"
    by (simp add: remove_watermark_pymupdf_def foldl_unchanged process_page_no_needles)
next
  assume h: "\<forall>p < length (pages d).
      \<not> any_in (map (str_lower U) wl) (str_lower U (get_text fz d p))"
  let ?st = "\<lparr>doc = d, updates = []\<rparr>"
  have "\<forall>p\<in>set [0 ..< length (pages d)]. process_page U fz wl ?st p = ?st"
    using h by (simp add: process_page_gate)
  then have "foldl (process_page U fz wl) ?st [0 ..< length (pages d)] = ?st"
    by (rule foldl_unchanged)
  then show r: "remove_watermark_pymupdf U fz d (Some wl) = ?st"
    by (simp add: remove_watermark_pymupdf_def)
  show "length (updates (remove_watermark_pymupdf U fz d (Some wl))) = 0"
    by (simp add: r)
qed

text \<open>
  The witness is a page that shows no text and has an annotation whose content is the
  needle: the annotation is kept, since the page text does not contain the needle.
\<close>

theorem no_match_pass_through_witness:
  "\<not> any_in (map (str_lower latin1_tables) [str ''secret''])
        (str_lower latin1_tables (get_text strings_fitz annotated_doc 0))
   \<and> annot_hit latin1_tables (map (str_lower latin1_tables) [str ''secret''])
        \<lparr>annot_content = str ''secret'', annot_title = []\<rparr>
   \<and> remove_watermark_pymupdf latin1_tables strings_fitz annotated_doc (Some [str ''secret''])
       = \<lparr>doc = annotated_doc, updates = []\<rparr>"
proof -
  have g: "\<not> any_in (map (str_lower latin1_tables) [str ''secret''])
        (str_lower latin1_tables (get_text strings_fitz annotated_doc 0))"
    by code_simp
  have a: "annot_hit latin1_tables (map (str_lower latin1_tables) [str ''secret''])
        \<lparr>annot_content = str ''secret'', annot_title = []\<rparr>"
    by code_simp
  have "length (pages annotated_doc) = 1" by (simp add: annotated_doc_def)
  with g have h: "\<forall>p < length (pages annotated_doc).
      \<not> any_in (map (str_lower latin1_tables) [str ''secret''])
          (str_lower latin1_tables (get_text strings_fitz annotated_doc p))"
    by simp
  from no_match_pass_through [of latin1_tables strings_fitz annotated_doc "[str ''secret'']"] h
  have "remove_watermark_pymupdf latin1_tables strings_fitz annotated_doc (Some [str ''secret''])
       = \<lparr>doc = annotated_doc, updates = []\<rparr>" by blast
  with g a show ?thesis by (intro conjI)
qed

subsection \<open>C10: a page without a needle\<close>

text \<open>
  C10: a page whose lowercased text contains no lowercased needle is skipped: the state
  of the run after the page is the state before it, so none of its annotations is
  deleted and no stream is written. This holds for every lowercasing function, Python's
  among them.
\<close>

theorem page_without_needle_skipped:
  "\<not> any_in (map (str_lower U) wl) (str_lower U (get_text fz (doc st) p)) \<Longrightarrow>
   process_page U fz wl st p = st
   \<and> annots (pages (doc (process_page U fz wl st p)) ! p) = annots (pages (doc st) ! p)
   \<and> updates (process_page U fz wl st p) = updates st"
  by (simp add: process_page_gate)

text \<open>
  The witness is the page of \<open>annotated_doc\<close>: its annotation contains the needle and
  would be deleted if the page were processed; it is still there after the page.
\<close>

theorem page_without_needle_skipped_witness:
  "\<not> any_in (map (str_lower latin1_tables) [str ''secret''])
        (str_lower latin1_tables
           (get_text strings_fitz (doc \<lparr>doc = annotated_doc, updates = []\<rparr>) 0))
   \<and> annot_hit latin1_tables (map (str_lower latin1_tables) [str ''secret''])
        \<lparr>annot_content = str ''secret'', annot_title = []\<rparr>
   \<and> annots (pages (doc (process_page latin1_tables strings_fitz [str ''secret'']
                           \<lparr>doc = annotated_doc, updates = []\<rparr> 0)) ! 0)
       = [\<lparr>annot_content = str ''secret'', annot_title = []\<rparr>]
   \<and> updates (process_page latin1_tables strings_fitz [str ''secret'']
                \<lparr>doc = annotated_doc, updates = []\<rparr> 0) = []"
proof -
  let ?st = "\<lparr>doc = annotated_doc, updates = []\<rparr>"
  have g: "\<not> any_in (map (str_lower latin1_tables) [str ''secret''])
        (str_lower latin1_tables (get_text strings_fitz (doc ?st) 0))"
    by code_simp
  have a: "annot_hit latin1_tables (map (str_lower latin1_tables) [str ''secret''])
        \<lparr>annot_content = str ''secret'', annot_title = []\<rparr>"
    by code_simp
  have n: "annots (pages (doc ?st) ! 0) = [\<lparr>annot_content = str ''secret'', annot_title = []\<rparr>]"
    by (simp add: annotated_doc_def)
  note t = page_without_needle_skipped [OF g]
  from t n have 1: "annots (pages (doc (process_page latin1_tables strings_fitz [str ''secret'']
                           ?st 0)) ! 0)
       = [\<lparr>annot_content = str ''secret'', annot_title = []\<rparr>]"
    by (simp only:)
  from t have 2: "updates (process_page latin1_tables strings_fitz [str ''secret''] ?st 0) = []"
    by simp
  from g a 1 2 show ?thesis by (intro conjI)
qed

end
